theory Spec2Isabelle
  imports Main
begin

section \<open>The CVE cleanup script \<^verbatim>\<open>cleanupCveFix.js\<close>\<close>

text \<open>
  The script reads \<^verbatim>\<open>process.version\<close>, shells out through \<^verbatim>\<open>execSync\<close>, writes log lines
  and ends in \<^verbatim>\<open>process.exit\<close>. The embedding makes each of these explicit:
  \<^item> a JavaScript string is a \<^typ>\<open>string\<close>, one \<^typ>\<open>char\<close> per code unit (code units
    below 256);
  \<^item> a JavaScript number is a \<^verbatim>\<open>jsnum\<close>: \<^verbatim>\<open>NaN\<close> or an integer. The numbers of the script
    are doubles, which hold every integer of magnitude below \<open>2^53\<close>: in that range
    \<^verbatim>\<open>parseInt\<close> and the template literal \<^verbatim>\<open>`${n}`\<close> are exact, and the model is the script.
    From \<open>2^53\<close> on \<^verbatim>\<open>parseInt\<close> rounds and \<^verbatim>\<open>`${n}`\<close> prints the rounded value (in exponent
    form from \<open>10^21\<close>), and the model, which keeps the integer, is not: a property of
    the text of a number is stated below \<open>2^53\<close> only;
  \<^item> the external world is a \<^verbatim>\<open>shell\<close>: given the commands run so far and the command to
    run, it answers with the command's standard output (\<open>Inr\<close>) or with the message of
    the error that \<^verbatim>\<open>execSync\<close> throws (\<open>Inl\<close>);
  \<^item> the effects of a run are a \<^verbatim>\<open>process\<close> record: the commands handed to \<^verbatim>\<open>execSync\<close>, in
    order, and the messages handed to \<^verbatim>\<open>log\<close>, in order (the timestamp that \<^verbatim>\<open>log\<close> puts in
    front of each message is wall-clock time and is left out);
  \<^item> a thrown error is the \<open>Inl\<close> of a sum, \<^verbatim>\<open>process.exit(c)\<close> is the returned exit code.
\<close>

subsection \<open>Numbers and strings of the JavaScript runtime\<close>

datatype jsnum = NaN | Num int

text \<open>The comparison \<^verbatim>\<open>a < b\<close> of two numbers: false as soon as one of them is \<^verbatim>\<open>NaN\<close>.\<close>

fun lt :: "jsnum \<Rightarrow> jsnum \<Rightarrow> bool" where
  "lt (Num a) (Num b) = (a < b)"
| "lt _ _ = False"

definition isDigit :: "char \<Rightarrow> bool" where
  "isDigit c = (c \<in> set ''0123456789'')"

definition digitValue :: "char \<Rightarrow> nat" where
  "digitValue c = of_char c - 48"

definition digitChar :: "nat \<Rightarrow> char" where
  "digitChar d = char_of (48 + d)"

text \<open>White space and line terminators of ECMAScript, as far as they are code units below 256.\<close>

definition isWhiteSpace :: "char \<Rightarrow> bool" where
  "isWhiteSpace c =
     (c \<in> set [CHR 0x09, CHR 0x0A, CHR 0x0B, CHR 0x0C, CHR 0x0D, CHR 0x20, CHR 0xA0])"

text \<open>\<^verbatim>\<open>String.prototype.trim\<close>.\<close>

definition trim :: "string \<Rightarrow> string" where
  "trim s = rev (dropWhile isWhiteSpace (rev (dropWhile isWhiteSpace s)))"

text \<open>
  \<^verbatim>\<open>s.split(sep)\<close> for a separator of one character: the pieces between the separators,
  never an empty array (\<^verbatim>\<open>''.split('.')\<close> is \<^verbatim>\<open>['']\<close>).
\<close>

function split :: "char \<Rightarrow> string \<Rightarrow> string list" where
  "split sep s =
     (case dropWhile (\<lambda>c. c \<noteq> sep) s of
        [] \<Rightarrow> [s]
      | _ # rest \<Rightarrow> takeWhile (\<lambda>c. c \<noteq> sep) s # split sep rest)"
  by pat_completeness auto
termination
proof (relation "measure (\<lambda>(sep, s). length s)")
  fix sep :: char and s :: string and x rest
  assume "dropWhile (\<lambda>c. c \<noteq> sep) s = x # rest"
  then have "Suc (length rest) = length (dropWhile (\<lambda>c. c \<noteq> sep) s)"
    by simp
  also have "\<dots> \<le> length s"
    by (rule length_dropWhile_le)
  finally show "((sep, rest), (sep, s)) \<in> measure (\<lambda>(sep, s). length s)"
    by simp
qed simp

declare split.simps [simp del]

text \<open>\<^verbatim>\<open>parts.join(sep)\<close>.\<close>

fun join :: "string \<Rightarrow> string list \<Rightarrow> string" where
  "join sep [] = []"
| "join sep [p] = p"
| "join sep (p # q # ps) = p @ sep @ join sep (q # ps)"

text \<open>The value of a string of decimal digits, most significant digit first.\<close>

definition digitsValue :: "string \<Rightarrow> nat" where
  "digitsValue ds = foldl (\<lambda>a c. 10 * a + digitValue c) 0 ds"

text \<open>
  \<^verbatim>\<open>parseInt(s, 10)\<close>: leading white space is skipped, one sign is read, then the longest
  run of decimal digits; with no digit there the result is \<^verbatim>\<open>NaN\<close>. What follows the
  digits is ignored. The result is the integer that the digits denote, which is the
  script's number when it is below \<open>2^53\<close> in magnitude.
\<close>

definition stripSign :: "string \<Rightarrow> int \<times> string" where
  "stripSign s =
     (case s of
        [] \<Rightarrow> (1, [])
      | c # r \<Rightarrow> if c = CHR ''-'' then (- 1, r) else if c = CHR ''+'' then (1, r) else (1, s))"

definition parseInt10 :: "string \<Rightarrow> jsnum" where
  "parseInt10 s =
     (let (sign, u) = stripSign (dropWhile isWhiteSpace s);
          ds = takeWhile isDigit u
      in if ds = [] then NaN else Num (sign * int (digitsValue ds)))"

text \<open>
  The decimal digits of a natural number, and \<^verbatim>\<open>`${n}`\<close> for a number: \<^verbatim>\<open>NaN\<close>, or the decimal
  numeral with its sign, which is what the script prints for an integer below \<open>2^53\<close> in
  magnitude.
\<close>

fun decimal :: "nat \<Rightarrow> string" where
  "decimal n =
     (if n < 10 then [digitChar n] else decimal (n div 10) @ [digitChar (n mod 10)])"

declare decimal.simps [simp del]

fun toStr :: "jsnum \<Rightarrow> string" where
  "toStr NaN = ''NaN''"
| "toStr (Num i) = (if i < 0 then ''-'' @ decimal (nat (- i)) else decimal (nat i))"

subsection \<open>The process: commands run and lines logged\<close>

record process =
  executed :: "string list"
  console :: "string list"

type_synonym shell = "string list \<Rightarrow> string \<Rightarrow> string + string"

definition start :: process where
  "start = \<lparr>executed = [], console = []\<rparr>"

definition log :: "string \<Rightarrow> process \<Rightarrow> process" where
  "log message st = st\<lparr>console := console st @ [message]\<rparr>"

text \<open>
  \<^verbatim>\<open>getNodeVersion\<close>: the major version is what \<^verbatim>\<open>parseInt\<close> reads in the first
  dot-separated piece of the version string, its first character dropped.
\<close>

definition majorVersion :: "string \<Rightarrow> jsnum" where
  "majorVersion version = parseInt10 (drop 1 (hd (split CHR ''.'' version)))"

definition getNodeVersion :: "string \<Rightarrow> process \<Rightarrow> jsnum \<times> process" where
  "getNodeVersion version st =
     (majorVersion version,
      log (''Detected Node.js version: '' @ version @ '' (major: ''
             @ toStr (majorVersion version) @ '')'') st)"

text \<open>
  \<^verbatim>\<open>executeCommand\<close>: the command goes to \<^verbatim>\<open>execSync\<close>; its output comes back trimmed, its
  error is logged and thrown again.
\<close>

definition executeCommand :: "shell \<Rightarrow> string \<Rightarrow> process \<Rightarrow> (string + string) \<times> process" where
  \<open>executeCommand sh command st =
     (let st' = st\<lparr>executed := executed st @ [command]\<rparr>
      in case sh (executed st) command of
           Inr output \<Rightarrow> (Inr (trim output), st')
         | Inl message \<Rightarrow>
             (Inl message,
              log (''Error executing command "'' @ command @ ''": '' @ message) st'))\<close>

subsection \<open>Listing the instances\<close>

definition idPrefix :: string where
  "idPrefix = ''system.adapter.eusec.''"

text \<open>
  The regular expression \<^verbatim>\<open>/system\.adapter\.eusec\.(\d+)/\<close> tried at the start of a string:
  the literal text, then as many digits as there are, at least one. The result is the
  group \<^verbatim>\<open>(\d+)\<close>.
\<close>

definition matchHere :: "string \<Rightarrow> string option" where
  "matchHere s =
     (if take (length idPrefix) s = idPrefix
      then (let ds = takeWhile isDigit (drop (length idPrefix) s)
            in if ds = [] then None else Some ds)
      else None)"

text \<open>\<^verbatim>\<open>line.match(...)\<close> without the \<^verbatim>\<open>g\<close> flag: the leftmost position where the expression matches.\<close>

fun lineMatch :: "string \<Rightarrow> string option" where
  "lineMatch [] = None"
| "lineMatch (c # cs) =
     (case matchHere (c # cs) of Some ds \<Rightarrow> Some ds | None \<Rightarrow> lineMatch cs)"

text \<open>The loop over the lines, \<^verbatim>\<open>instances\<close> being the array built so far.\<close>

fun collect :: "jsnum list \<Rightarrow> string list \<Rightarrow> jsnum list" where
  "collect instances [] = instances"
| "collect instances (line # lines) =
     (case lineMatch line of
        Some m \<Rightarrow>
          (let instanceNumber = parseInt10 m
           in if instanceNumber \<in> set instances then collect instances lines
              else collect (instances @ [instanceNumber]) lines)
      | None \<Rightarrow> collect instances lines)"

definition listCommand :: string where
  "listCommand = ''iob object list system.adapter.eusec.*''"

definition getEusecInstances :: "shell \<Rightarrow> process \<Rightarrow> jsnum list \<times> process" where
  "getEusecInstances sh st =
     (case executeCommand sh listCommand (log ''Retrieving eusec adapter instances...'' st) of
        (Inr output, st') \<Rightarrow>
          (let instances = collect [] (split CHR 0x0A output)
           in (instances,
               log (''Found '' @ decimal (length instances) @ '' eusec instance(s): ''
                      @ join '', '' (map toStr instances)) st'))
      | (Inl message, st') \<Rightarrow>
          ([],
           log (''No eusec instances found or error occurred while listing instances: ''
                  @ message) st'))"

subsection \<open>Fixing one instance\<close>

definition objectId :: "jsnum \<Rightarrow> string" where
  "objectId instanceNumber = ''system.adapter.eusec.'' @ toStr instanceNumber"

definition fixCommand :: "jsnum \<Rightarrow> string" where
  "fixCommand instanceNumber =
     ''iob object set '' @ objectId instanceNumber @ '' common.nodeProcessParams=[]''"

definition fixInstance :: "shell \<Rightarrow> jsnum \<Rightarrow> process \<Rightarrow> (string + unit) \<times> process" where
  "fixInstance sh instanceNumber st =
     (let st1 = log (''Fixing instance '' @ toStr instanceNumber @ ''...'') st;
          st2 = log (''Executing: '' @ fixCommand instanceNumber) st1
      in case executeCommand sh (fixCommand instanceNumber) st2 of
           (Inr output, st3) \<Rightarrow>
             (Inr (), log (''Successfully fixed instance '' @ toStr instanceNumber) st3)
         | (Inl message, st3) \<Rightarrow>
             (Inl message,
              log (''Failed to fix instance '' @ toStr instanceNumber @ '': '' @ message) st3))"

subsection \<open>The main function\<close>

text \<open>
  The loop over the instances: \<^verbatim>\<open>successCount\<close>, \<^verbatim>\<open>failCount\<close> and the process are its state.
\<close>

fun fixAll :: "shell \<Rightarrow> jsnum list \<Rightarrow> nat \<times> nat \<times> process \<Rightarrow> nat \<times> nat \<times> process" where
  "fixAll sh [] (successCount, failCount, st) = (successCount, failCount, st)"
| "fixAll sh (instanceNumber # rest) (successCount, failCount, st) =
     (case fixInstance sh instanceNumber st of
        (Inr _, st') \<Rightarrow> fixAll sh rest (successCount + 1, failCount, st')
      | (Inl _, st') \<Rightarrow> fixAll sh rest (successCount, failCount + 1, st'))"

definition completed :: string where
  "completed = ''=== Cleanup CVE Fix Script Completed Successfully ===''"

text \<open>\<^verbatim>\<open>main\<close>, from a fresh process to the exit code and what the process did.\<close>

definition main :: "string \<Rightarrow> shell \<Rightarrow> int \<times> process" where
  "main version sh =
     (let (nodeVersion, st1) =
            getNodeVersion version (log ''=== Cleanup CVE Fix Script Started ==='' start)
      in if lt nodeVersion (Num 22)
         then (0, log completed
                    (log (''Node.js version '' @ toStr nodeVersion
                            @ ''.x is less than 22.x - no action needed'') st1))
         else
           (let st2 = log (''Node.js version '' @ toStr nodeVersion
                             @ ''.x is >= 22.x - proceeding with fix'') st1;
                (instances, st3) = getEusecInstances sh st2
            in if length instances = 0
               then (0, log completed (log ''No eusec instances found - nothing to fix'' st3))
               else
                 (let (successCount, failCount, st4) = fixAll sh instances (0, 0, st3);
                      st5 = log (''Fixed '' @ decimal successCount @ '' instance(s), ''
                                   @ decimal failCount @ '' failure(s)'') st4
                  in if failCount > 0
                     then (1, log ''=== Cleanup CVE Fix Script Completed with Errors ==='' st5)
                     else (0, log completed st5))))"

subsection \<open>Vocabulary of the properties\<close>

text \<open>
  A line contains an identifier when the text \<^verbatim>\<open>system.adapter.eusec.\<close> occurs in it with a
  digit right after it: some substring of the line matches the regular expression.
\<close>

definition containsId :: "string \<Rightarrow> bool" where
  "containsId line = (\<exists>pre d rest. line = pre @ idPrefix @ d # rest \<and> isDigit d)"

text \<open>A numeric string: decimal digits only, at least one.\<close>

definition isNumeric :: "string \<Rightarrow> bool" where
  "isNumeric s = (s \<noteq> [] \<and> list_all isDigit s)"

text \<open>A string that begins with a digit, once leading white space and one sign are skipped.\<close>

definition startsWithNumber :: "string \<Rightarrow> bool" where
  "startsWithNumber s =
     (case snd (stripSign (dropWhile isWhiteSpace s)) of [] \<Rightarrow> False | c # _ \<Rightarrow> isDigit c)"

subsection \<open>Sample runs\<close>

text \<open>Shells for concrete runs: what the host answers, by the number of commands run before.\<close>

definition listing :: string where
  "listing = ''system.adapter.eusec.0'' @ [CHR 0x0A] @ ''system.adapter.eusec.2'' @ [CHR 0x0A]"

definition obliging :: shell where
  "obliging h c = (if h = [] then Inr listing else Inr [])"

definition firstFails :: shell where
  "firstFails h c =
     (if h = [] then Inr listing else if length h = 1 then Inl ''exit 1'' else Inr [])"

definition refusing :: shell where
  "refusing h c = Inl ''iob: not found''"

definition silent :: shell where
  "silent h c = Inr []"

text \<open>A listing with a repeated identifier and with lines that hold none.\<close>

definition repeating :: shell where
  "repeating h c =
     Inr (''system.adapter.eusec.0'' @ [CHR 0x0A] @ ''eusec'' @ [CHR 0x0A]
          @ ''system.adapter.eusec.2'' @ [CHR 0x0A] @ ''system.adapter.eusec.0'' @ [CHR 0x0A])"

section \<open>What each function does to the process\<close>

lemma executed_log: "executed (log message st) = executed st"
  by (simp add: log_def)

lemma executed_executeCommand:
  "executed (snd (executeCommand sh command st)) = executed st @ [command]"
  by (simp add: executeCommand_def Let_def executed_log split: sum.split)

lemma fst_executeCommand:
  "fst (executeCommand sh command st) =
     (case sh (executed st) command of Inl message \<Rightarrow> Inl message | Inr output \<Rightarrow> Inr (trim output))"
  by (simp add: executeCommand_def Let_def split: sum.split)

lemma executed_getEusecInstances:
  "executed (snd (getEusecInstances sh st)) = executed st @ [listCommand]"
proof -
  obtain r st' where e: "executeCommand sh listCommand (log ''Retrieving eusec adapter instances...'' st) = (r, st')"
    by (cases "executeCommand sh listCommand (log ''Retrieving eusec adapter instances...'' st)")
  from executed_executeCommand [of sh listCommand "log ''Retrieving eusec adapter instances...'' st"] e
  have "executed st' = executed st @ [listCommand]"
    by (simp add: executed_log)
  with e show ?thesis
    by (cases r) (simp_all add: getEusecInstances_def Let_def executed_log)
qed

lemma fst_getEusecInstances:
  "fst (getEusecInstances sh st) =
     (case sh (executed st) listCommand of
        Inl message \<Rightarrow> []
      | Inr output \<Rightarrow> collect [] (split CHR 0x0A (trim output)))"
proof -
  obtain r st' where e: "executeCommand sh listCommand (log ''Retrieving eusec adapter instances...'' st) = (r, st')"
    by (cases "executeCommand sh listCommand (log ''Retrieving eusec adapter instances...'' st)")
  from fst_executeCommand [of sh listCommand "log ''Retrieving eusec adapter instances...'' st"] e
  have "r = (case sh (executed st) listCommand of Inl message \<Rightarrow> Inl message | Inr output \<Rightarrow> Inr (trim output))"
    by (simp add: executed_log)
  with e show ?thesis
    by (cases "sh (executed st) listCommand") (simp_all add: getEusecInstances_def Let_def)
qed

lemma executed_fixInstance:
  "executed (snd (fixInstance sh n st)) = executed st @ [fixCommand n]"
proof -
  let ?st2 = "log (''Executing: '' @ fixCommand n) (log (''Fixing instance '' @ toStr n @ ''...'') st)"
  obtain r st' where e: "executeCommand sh (fixCommand n) ?st2 = (r, st')"
    by (cases "executeCommand sh (fixCommand n) ?st2")
  from executed_executeCommand [of sh "fixCommand n" ?st2] e
  have "executed st' = executed st @ [fixCommand n]"
    by (simp add: executed_log)
  with e show ?thesis
    by (cases r) (simp_all add: fixInstance_def Let_def executed_log)
qed

lemma isl_fixInstance:
  "isl (fst (fixInstance sh n st)) = isl (sh (executed st) (fixCommand n))"
proof -
  let ?st2 = "log (''Executing: '' @ fixCommand n) (log (''Fixing instance '' @ toStr n @ ''...'') st)"
  obtain r st' where e: "executeCommand sh (fixCommand n) ?st2 = (r, st')"
    by (cases "executeCommand sh (fixCommand n) ?st2")
  from fst_executeCommand [of sh "fixCommand n" ?st2] e
  have "r = (case sh (executed st) (fixCommand n) of Inl message \<Rightarrow> Inl message | Inr output \<Rightarrow> Inr (trim output))"
    by (simp add: executed_log)
  with e show ?thesis
    by (cases "sh (executed st) (fixCommand n)") (simp_all add: fixInstance_def Let_def)
qed


lemma executed_fixAll:
  "executed (snd (snd (fixAll sh ns (s, f, st)))) = executed st @ map fixCommand ns"
proof (induction ns arbitrary: s f st)
  case Nil
  show ?case by simp
next
  case (Cons n ns)
  obtain r st' where e: "fixInstance sh n st = (r, st')"
    by (cases "fixInstance sh n st")
  with executed_fixInstance [of sh n st] have "executed st' = executed st @ [fixCommand n]"
    by simp
  with e Cons.IH show ?case
    by (cases r) simp_all
qed

lemma counts_fixAll:
  "fst (fixAll sh ns (s, f, st)) + fst (snd (fixAll sh ns (s, f, st))) = s + f + length ns"
proof (induction ns arbitrary: s f st)
  case Nil
  show ?case by simp
next
  case (Cons n ns)
  obtain r st' where e: "fixInstance sh n st = (r, st')"
    by (cases "fixInstance sh n st")
  with Cons.IH show ?case
    by (cases r) simp_all
qed

lemma failCount_fixAll:
  "fst (snd (fixAll sh ns (s, f, st))) =
     f + length (filter (\<lambda>i. isl (sh (executed st @ map fixCommand (take i ns)) (fixCommand (ns ! i))))
               [0..<length ns])"
proof (induction ns arbitrary: s f st)
  case Nil
  show ?case by simp
next
  case (Cons n ns)
  let ?P = "\<lambda>h ms i. isl (sh (h @ map fixCommand (take i ms)) (fixCommand (ms ! i)))"
  obtain r st' where e: "fixInstance sh n st = (r, st')"
    by (cases "fixInstance sh n st")
  with executed_fixInstance [of sh n st] have x: "executed st' = executed st @ [fixCommand n]"
    by simp
  from e isl_fixInstance [of sh n st] have i: "isl r = isl (sh (executed st) (fixCommand n))"
    by simp
  have "[0..<length (n # ns)] = 0 # map Suc [0..<length ns]"
    by (simp add: upt_conv_Cons map_Suc_upt del: upt_Suc)
  then have "filter (?P (executed st) (n # ns)) [0..<length (n # ns)] =
      (if isl r then [0] else []) @ map Suc (filter (?P (executed st') ns) [0..<length ns])"
    by (simp add: filter_map comp_def x i)
  then have "length (filter (?P (executed st) (n # ns)) [0..<length (n # ns)]) =
      (if isl r then 1 else 0) + length (filter (?P (executed st') ns) [0..<length ns])"
    by simp
  with e Cons.IH [of _ _ st'] show ?case
    by (cases r) simp_all
qed

lemma failed_fixAll:
  "0 < fst (snd (fixAll sh ns (0, 0, st))) \<longleftrightarrow>
     (\<exists>i<length ns. isl (sh (executed st @ map fixCommand (take i ns)) (fixCommand (ns ! i))))"
proof -
  let ?P = "\<lambda>i. isl (sh (executed st @ map fixCommand (take i ns)) (fixCommand (ns ! i)))"
  have "0 < length (filter ?P [0..<length ns]) \<longleftrightarrow> (\<exists>i<length ns. ?P i)"
    by (auto simp: filter_empty_conv)
  then show ?thesis
    by (simp add: failCount_fixAll [of sh ns 0 0 st])
qed


lemma executed_start: "executed start = []"
  by (simp add: start_def)

lemma main_below:
  assumes "lt (majorVersion version) (Num 22)"
  shows "fst (main version sh) = 0" and "executed (snd (main version sh)) = []"
  using assms by (simp_all add: main_def getNodeVersion_def executed_log executed_start)

lemma main_proceed:
  assumes v: "\<not> lt (majorVersion version) (Num 22)"
  shows "executed (snd (main version sh)) =
           listCommand # map fixCommand (fst (getEusecInstances sh start))"
    and "fst (main version sh) =
           (if \<exists>i<length (fst (getEusecInstances sh start)).
                 isl (sh (listCommand # map fixCommand (take i (fst (getEusecInstances sh start))))
                        (fixCommand (fst (getEusecInstances sh start) ! i)))
            then 1 else 0)"
proof -
  let ?ins = "fst (getEusecInstances sh start)"
  define st2 where "st2 = log (''Node.js version '' @ toStr (majorVersion version)
                     @ ''.x is >= 22.x - proceeding with fix'')
                (snd (getNodeVersion version (log ''=== Cleanup CVE Fix Script Started ==='' start)))"
  have x2: "executed st2 = []"
    unfolding st2_def by (simp add: getNodeVersion_def executed_log executed_start)
  obtain ins st3 where g: "getEusecInstances sh st2 = (ins, st3)"
    by (cases "getEusecInstances sh st2")
  from g fst_getEusecInstances [of sh st2] fst_getEusecInstances [of sh start]
  have ins: "ins = ?ins"
    by (simp add: x2 executed_start)
  from g executed_getEusecInstances [of sh st2] have x3: "executed st3 = [listCommand]"
    by (simp add: x2)
  obtain sc fc st4 where a: "fixAll sh ins (0, 0, st3) = (sc, fc, st4)"
    by (cases "fixAll sh ins (0, 0, st3)")
  from a executed_fixAll [of sh ins 0 0 st3] have x4: "executed st4 = listCommand # map fixCommand ins"
    by (simp add: x3)
  from a failed_fixAll [of sh ins st3]
  have fc: "0 < fc \<longleftrightarrow>
      (\<exists>i<length ins. isl (sh (listCommand # map fixCommand (take i ins)) (fixCommand (ins ! i))))"
    by (simp add: x3)
  have m: "main version sh =
      (if length ins = 0
       then (0, log completed (log ''No eusec instances found - nothing to fix'' st3))
       else (let st5 = log (''Fixed '' @ decimal sc @ '' instance(s), ''
                              @ decimal fc @ '' failure(s)'') st4
             in if fc > 0
                then (1, log ''=== Cleanup CVE Fix Script Completed with Errors ==='' st5)
                else (0, log completed st5)))"
    using v g a unfolding st2_def by (simp add: main_def getNodeVersion_def Let_def)
  show "executed (snd (main version sh)) = listCommand # map fixCommand ?ins"
    unfolding m ins [symmetric] by (simp add: Let_def executed_log x3 x4)
  show "fst (main version sh) =
           (if \<exists>i<length ?ins. isl (sh (listCommand # map fixCommand (take i ?ins)) (fixCommand (?ins ! i)))
            then 1 else 0)"
    unfolding m ins [symmetric] using fc by (simp add: Let_def)
qed

lemma fixCommand_not_list: "fixCommand n \<noteq> listCommand"
  by (simp add: fixCommand_def listCommand_def)

lemma instances_obliging: "fst (getEusecInstances obliging start) = [Num 0, Num 2]"
  by (simp add: fst_getEusecInstances executed_start obliging_def) code_simp

lemma instances_firstFails: "fst (getEusecInstances firstFails start) = [Num 0, Num 2]"
  by (simp add: fst_getEusecInstances executed_start firstFails_def) code_simp

lemma v22: "majorVersion ''v22.11.0'' = Num 22"
  by code_simp

section \<open>Digits and the identifier pattern\<close>

lemma length_idPrefix: "length idPrefix = 21"
  by (simp add: idPrefix_def)

lemma digits_table:
  "\<forall>d\<in>set [0..<10]. isDigit (digitChar d) \<and> digitValue (digitChar d) = d"
  by code_simp

lemma digitChar_digit:
  assumes "d < 10"
  shows "isDigit (digitChar d)" and "digitValue (digitChar d) = d"
  using assms digits_table by simp_all

lemma decimal_digits: "decimal n \<noteq> [] \<and> list_all isDigit (decimal n)"
proof (induction n rule: decimal.induct)
  case (1 n)
  show ?case
  proof (cases "n < 10")
    case True
    then show ?thesis
      by (simp add: decimal.simps [of n] digitChar_digit)
  next
    case False
    with "1" show ?thesis
      by (simp add: decimal.simps [of n] digitChar_digit)
  qed
qed

lemma digitsValue_snoc: "digitsValue (ds @ [c]) = 10 * digitsValue ds + digitValue c"
  by (simp add: digitsValue_def)

lemma digitsValue_decimal: "digitsValue (decimal n) = n"
proof (induction n rule: decimal.induct)
  case (1 n)
  show ?case
  proof (cases "n < 10")
    case True
    then show ?thesis
      by (simp add: decimal.simps [of n] digitsValue_def digitChar_digit)
  next
    case False
    with "1" show ?thesis
      by (simp add: decimal.simps [of n] digitsValue_snoc digitChar_digit)
  qed
qed

lemma digit_not_space: "isDigit c \<Longrightarrow> \<not> isWhiteSpace c"
  by (auto simp: isDigit_def isWhiteSpace_def)

lemma digit_not_sign: "isDigit c \<Longrightarrow> c \<noteq> CHR ''-'' \<and> c \<noteq> CHR ''+''"
  by (auto simp: isDigit_def)

lemma parseInt10_digits:
  assumes "ds \<noteq> []" and "list_all isDigit ds"
  shows "parseInt10 ds = Num (int (digitsValue ds))"
proof -
  from assms obtain c r where ds: "ds = c # r" and c: "isDigit c"
    by (cases ds) auto
  from c have w: "dropWhile isWhiteSpace ds = ds"
    by (simp add: ds digit_not_space)
  from c have s: "stripSign ds = (1, ds)"
    by (simp add: ds stripSign_def digit_not_sign)
  from assms(2) have t: "takeWhile isDigit ds = ds"
    by (simp add: list_all_iff)
  show ?thesis
    by (simp add: parseInt10_def w s t Let_def assms(1))
qed

lemma parseInt10_decimal: "parseInt10 (decimal n) = Num (int n)"
  using parseInt10_digits [of "decimal n"] decimal_digits [of n] digitsValue_decimal [of n]
  by simp

lemma matchHere_Some:
  "(\<exists>ds. matchHere s = Some ds) \<longleftrightarrow> (\<exists>d rest. s = idPrefix @ d # rest \<and> isDigit d)"
proof
  assume "\<exists>ds. matchHere s = Some ds"
  then have p: "take (length idPrefix) s = idPrefix"
    and t: "takeWhile isDigit (drop (length idPrefix) s) \<noteq> []"
    by (auto simp: matchHere_def Let_def split: if_splits)
  from t obtain d rest where r: "drop (length idPrefix) s = d # rest" and "isDigit d"
    by (cases "drop (length idPrefix) s") (auto split: if_splits)
  moreover from p r have "s = idPrefix @ d # rest"
    by (metis append_take_drop_id)
  ultimately show "\<exists>d rest. s = idPrefix @ d # rest \<and> isDigit d"
    by blast
next
  assume "\<exists>d rest. s = idPrefix @ d # rest \<and> isDigit d"
  then show "\<exists>ds. matchHere s = Some ds"
    by (auto simp: matchHere_def Let_def)
qed

lemma matchHere_digits:
  assumes "ds \<noteq> []" and "list_all isDigit ds" and "takeWhile isDigit tail = []"
  shows "matchHere (idPrefix @ ds @ tail) = Some ds"
proof -
  from assms(2) have "\<And>x. x \<in> set ds \<Longrightarrow> isDigit x"
    by (simp add: list_all_iff)
  then have "takeWhile isDigit (ds @ tail) = ds"
    using assms(3) by (simp add: takeWhile_append2)
  with assms(1) show ?thesis
    by (simp add: matchHere_def)
qed

lemma containsId_Nil: "\<not> containsId []"
  by (simp add: containsId_def idPrefix_def)

lemma containsId_Cons:
  "containsId (c # cs) \<longleftrightarrow> (\<exists>ds. matchHere (c # cs) = Some ds) \<or> containsId cs"
proof -
  have "containsId (c # cs) \<longleftrightarrow>
      (\<exists>d rest. c # cs = idPrefix @ d # rest \<and> isDigit d) \<or> containsId cs"
    unfolding containsId_def
  proof (intro iffI; elim exE conjE disjE)
    fix pre d rest
    assume l: "c # cs = pre @ idPrefix @ d # rest" and d: "isDigit d"
    show "(\<exists>d rest. c # cs = idPrefix @ d # rest \<and> isDigit d)
        \<or> (\<exists>pre d rest. cs = pre @ idPrefix @ d # rest \<and> isDigit d)"
    proof (cases pre)
      case Nil
      with l d show ?thesis by auto
    next
      case (Cons p ps)
      with l d have "cs = ps @ idPrefix @ d # rest \<and> isDigit d" by simp
      then show ?thesis by blast
    qed
  next
    fix d rest
    assume "c # cs = idPrefix @ d # rest" and "isDigit d"
    then have "c # cs = [] @ idPrefix @ d # rest \<and> isDigit d" by simp
    then show "\<exists>pre d rest. c # cs = pre @ idPrefix @ d # rest \<and> isDigit d" by blast
  next
    fix pre d rest
    assume "cs = pre @ idPrefix @ d # rest" and "isDigit d"
    then have "c # cs = (c # pre) @ idPrefix @ d # rest \<and> isDigit d" by simp
    then show "\<exists>pre d rest. c # cs = pre @ idPrefix @ d # rest \<and> isDigit d" by blast
  qed
  then show ?thesis
    by (simp add: matchHere_Some)
qed

lemma lineMatch_None: "lineMatch line = None \<longleftrightarrow> \<not> containsId line"
proof (induction line)
  case Nil
  show ?case by (simp add: containsId_Nil)
next
  case (Cons c cs)
  show ?case
  proof (cases "matchHere (c # cs)")
    case None
    with Cons show ?thesis by (simp add: containsId_Cons)
  next
    case (Some ds)
    then show ?thesis by (simp add: containsId_Cons)
  qed
qed

lemma lineMatch_here: "matchHere s = Some ds \<Longrightarrow> lineMatch s = Some ds"
  by (cases s) (simp_all add: matchHere_def idPrefix_def)

lemma lineMatch_objectId: "lineMatch (objectId (Num (int k))) = Some (decimal k)"
proof -
  have "matchHere (idPrefix @ decimal k @ []) = Some (decimal k)"
    using decimal_digits [of k] by (intro matchHere_digits) simp_all
  then have "lineMatch (idPrefix @ decimal k) = Some (decimal k)"
    by (simp add: lineMatch_here)
  then show ?thesis
    by (simp add: objectId_def idPrefix_def)
qed

lemma distinct_collect: "distinct acc \<Longrightarrow> distinct (collect acc lines)"
  by (induction lines arbitrary: acc) (auto simp: Let_def split: option.splits)

lemma set_collect:
  "set (collect acc lines) =
     set acc \<union> {parseInt10 ds |ds. \<exists>line\<in>set lines. lineMatch line = Some ds}"
proof (induction lines arbitrary: acc)
  case Nil
  show ?case by simp
next
  case (Cons line lines)
  show ?case
  proof (cases "lineMatch line")
    case None
    with Cons.IH [of acc] show ?thesis by auto
  next
    case (Some ds)
    show ?thesis
    proof (cases "parseInt10 ds \<in> set acc")
      case True
      with Some Cons.IH [of acc] show ?thesis by auto
    next
      case False
      with Some Cons.IH [of "acc @ [parseInt10 ds]"] show ?thesis by auto
    qed
  qed
qed

lemma collect_filter: "collect acc lines = collect acc (filter containsId lines)"
proof (induction lines arbitrary: acc)
  case Nil
  show ?case by simp
next
  case (Cons line lines)
  show ?case
  proof (cases "lineMatch line")
    case None
    then have "\<not> containsId line" by (simp add: lineMatch_None)
    with None Cons.IH [of acc] show ?thesis by simp
  next
    case (Some ds)
    then have "containsId line" using lineMatch_None [of line] by simp
    with Some Cons.IH show ?thesis by (simp add: Let_def)
  qed
qed

lemma matchHere_before:
  assumes "matchHere (p # ps @ idPrefix) = None"
  shows "matchHere (p # ps @ idPrefix @ t) = None"
proof (rule ccontr)
  assume "matchHere (p # ps @ idPrefix @ t) \<noteq> None"
  then have "\<exists>ds. matchHere (p # ps @ idPrefix @ t) = Some ds"
    by simp
  then obtain d rest where e: "p # ps @ idPrefix @ t = idPrefix @ d # rest" and d: "isDigit d"
    using matchHere_Some [of "p # ps @ idPrefix @ t"] by blast
  define x where "x = p # ps @ idPrefix"
  have lx: "22 \<le> length x"
    by (simp add: x_def length_idPrefix)
  from e have "x @ t = (idPrefix @ [d]) @ rest"
    by (simp add: x_def)
  then have "take 22 (x @ t) = take 22 ((idPrefix @ [d]) @ rest)"
    by simp
  moreover from lx have "take 22 (x @ t) = take 22 x"
    by simp
  moreover have "take 22 ((idPrefix @ [d]) @ rest) = idPrefix @ [d]"
    by (simp add: length_idPrefix)
  ultimately have "take 22 x = idPrefix @ [d]"
    by simp
  then have "x = (idPrefix @ [d]) @ drop 22 x"
    by (metis append_take_drop_id)
  then have "x = idPrefix @ d # drop 22 x"
    by simp
  with d have "\<exists>ds. matchHere x = Some ds"
    using matchHere_Some [of x] by blast
  with assms show False
    by (simp add: x_def)
qed

lemma lineMatch_after:
  assumes "\<not> containsId (pre @ idPrefix)" and "matchHere (idPrefix @ t) = Some ds"
  shows "lineMatch (pre @ idPrefix @ t) = Some ds"
  using assms(1)
proof (induction pre)
  case Nil
  from assms(2) show ?case
    by (simp add: lineMatch_here)
next
  case (Cons p ps)
  from Cons.prems have n: "matchHere (p # ps @ idPrefix) = None" and c: "\<not> containsId (ps @ idPrefix)"
    using containsId_Cons [of p "ps @ idPrefix"] by auto
  from n have "matchHere (p # ps @ idPrefix @ t) = None"
    by (rule matchHere_before)
  with Cons.IH [OF c] show ?case
    by simp
qed

lemma length_collect: "length (collect instances lines) \<le> length instances + length lines"
proof (induction lines arbitrary: instances)
  case Nil
  show ?case by simp
next
  case (Cons line lines)
  show ?case
  proof (cases "lineMatch line")
    case None
    with Cons.IH [of instances] show ?thesis by simp
  next
    case (Some ds)
    with Cons.IH [of instances] Cons.IH [of "instances @ [parseInt10 ds]"] show ?thesis
      by (simp add: Let_def)
  qed
qed

lemma collect_one:
  "collect instances [line] =
     (case lineMatch line of
        None \<Rightarrow> instances
      | Some ds \<Rightarrow> if parseInt10 ds \<in> set instances then instances
                   else instances @ [parseInt10 ds])"
  by (simp add: Let_def split: option.split)

lemma parseInt10_NaN: "parseInt10 s = NaN \<longleftrightarrow> \<not> startsWithNumber s"
proof -
  obtain sign u where u: "stripSign (dropWhile isWhiteSpace s) = (sign, u)"
    by (cases "stripSign (dropWhile isWhiteSpace s)")
  then show ?thesis
    by (cases u) (simp_all add: parseInt10_def startsWithNumber_def)
qed

section \<open>The properties of the script\<close>

subsection \<open>The version gate\<close>

text \<open>
  C1. When the major version read from \<^verbatim>\<open>process.version\<close> is a number below 22, \<^verbatim>\<open>main\<close>
  exits with status 0 and has handed no command at all to \<^verbatim>\<open>execSync\<close>: neither the
  inventory command nor any \<^verbatim>\<open>iob object set\<close> of \<^verbatim>\<open>fixInstance\<close>.
\<close>

theorem main_below_22:
  assumes "majorVersion version = Num v" and "v < 22"
  shows "fst (main version sh) = 0 \<and> executed (snd (main version sh)) = []"
  using assms main_below [of version sh] by simp

theorem main_below_22_witness:
  "majorVersion ''v18.20.4'' = Num 18 \<and> (18::int) < 22
   \<and> fst (main ''v18.20.4'' obliging) = 0 \<and> executed (snd (main ''v18.20.4'' obliging)) = []"
proof -
  have h: "majorVersion ''v18.20.4'' = Num 18"
    by code_simp
  show ?thesis
    using h main_below_22 [OF h, of obliging] by simp
qed

text \<open>
  C6. When the major version is 22 or more and \<^verbatim>\<open>getEusecInstances\<close> returns the empty
  list, \<^verbatim>\<open>main\<close> exits with status 0; the inventory command is the only command it ran,
  so no \<^verbatim>\<open>iob object set\<close> command of any instance is among them.
\<close>

theorem main_without_instances:
  assumes "majorVersion version = Num v" and "22 \<le> v"
    and "fst (getEusecInstances sh start) = []"
  shows "fst (main version sh) = 0
     \<and> executed (snd (main version sh)) = [listCommand]
     \<and> (\<forall>n. fixCommand n \<notin> set (executed (snd (main version sh))))"
proof -
  from assms(1,2) have v: "\<not> lt (majorVersion version) (Num 22)"
    by simp
  from main_proceed [OF v, of sh] assms(3) show ?thesis
    by (simp add: fixCommand_not_list)
qed

theorem main_without_instances_witness:
  "majorVersion ''v22.11.0'' = Num 22 \<and> (22::int) \<le> 22
   \<and> fst (getEusecInstances silent start) = []
   \<and> fst (main ''v22.11.0'' silent) = 0
   \<and> executed (snd (main ''v22.11.0'' silent)) = [listCommand]"
proof -
  have e: "fst (getEusecInstances silent start) = []"
    by (simp add: fst_getEusecInstances executed_start silent_def) code_simp
  from main_without_instances [OF v22 order_refl e] v22 e show ?thesis
    by simp
qed

subsection \<open>A failing inventory\<close>

text \<open>
  C4. When the inventory command, the first command of the run, throws, then
  \<^verbatim>\<open>getEusecInstances\<close> returns the empty list, and a \<^verbatim>\<open>main\<close> that got past the version gate
  exits with status 0, the inventory command being the only command it ran: no
  \<^verbatim>\<open>iob object set\<close> command of any instance is among the commands of the run.
\<close>

theorem inventory_failure_is_not_fatal:
  assumes "sh [] listCommand = Inl message" and "\<not> lt (majorVersion version) (Num 22)"
  shows "fst (getEusecInstances sh start) = []
     \<and> fst (main version sh) = 0
     \<and> executed (snd (main version sh)) = [listCommand]
     \<and> (\<forall>n. fixCommand n \<notin> set (executed (snd (main version sh))))"
proof -
  from assms(1) have e: "fst (getEusecInstances sh start) = []"
    by (simp add: fst_getEusecInstances executed_start)
  with main_proceed [OF assms(2), of sh] show ?thesis
    by (simp add: fixCommand_not_list)
qed

theorem inventory_failure_is_not_fatal_witness:
  "refusing [] listCommand = Inl ''iob: not found''
   \<and> \<not> lt (majorVersion ''v22.11.0'') (Num 22)
   \<and> fst (getEusecInstances refusing start) = []
   \<and> fst (main ''v22.11.0'' refusing) = 0
   \<and> executed (snd (main ''v22.11.0'' refusing)) = [listCommand]"
proof -
  have r: "refusing [] listCommand = Inl ''iob: not found''"
    by (simp add: refusing_def)
  have v: "\<not> lt (majorVersion ''v22.11.0'') (Num 22)"
    by (simp add: v22)
  from inventory_failure_is_not_fatal [of refusing "''iob: not found''" "''v22.11.0''"] r v
  show ?thesis
    by simp
qed

subsection \<open>The loop over the instances\<close>

text \<open>
  C10. When the loop of \<^verbatim>\<open>main\<close> has run from both counters at zero, \<^verbatim>\<open>successCount\<close> and
  \<^verbatim>\<open>failCount\<close> add up to the number of instances, and the commands it ran are the
  \<^verbatim>\<open>iob object set\<close> commands of the instances, one for each, in the order of the list.
\<close>

theorem fixAll_counts_every_instance:
  "fixAll sh instances (0, 0, st) = (successCount, failCount, st') \<Longrightarrow>
     successCount + failCount = length instances
     \<and> executed st' = executed st @ map fixCommand instances"
  using counts_fixAll [of sh instances 0 0 st] executed_fixAll [of sh instances 0 0 st]
  by simp

theorem fixAll_counts_every_instance_witness:
  "fixAll firstFails [Num 0, Num 2] (0, 0, \<lparr>executed = [listCommand], console = []\<rparr>)
     = (1, 1, snd (snd (fixAll firstFails [Num 0, Num 2] (0, 0, \<lparr>executed = [listCommand], console = []\<rparr>))))
   \<and> (1::nat) + 1 = length [Num 0, Num 2]
   \<and> executed (snd (snd (fixAll firstFails [Num 0, Num 2] (0, 0, \<lparr>executed = [listCommand], console = []\<rparr>))))
       = [listCommand] @ map fixCommand [Num 0, Num 2]"
proof -
  let ?st = "\<lparr>executed = [listCommand], console = []\<rparr>"
  have f: "isl (fst (fixInstance firstFails (Num 0) ?st))"
    by (simp add: isl_fixInstance firstFails_def)
  have "executed (snd (fixInstance firstFails (Num 0) ?st)) = [listCommand, fixCommand (Num 0)]"
    by (simp add: executed_fixInstance)
  then have g: "\<not> isl (fst (fixInstance firstFails (Num 2) (snd (fixInstance firstFails (Num 0) ?st))))"
    by (simp add: isl_fixInstance firstFails_def)
  have "fst (fixAll firstFails [Num 0, Num 2] (0, 0, ?st)) = 1
      \<and> fst (snd (fixAll firstFails [Num 0, Num 2] (0, 0, ?st))) = 1"
    using f g by (auto simp: isl_def split: prod.splits sum.splits)
  then have e: "fixAll firstFails [Num 0, Num 2] (0, 0, ?st)
      = (1, 1, snd (snd (fixAll firstFails [Num 0, Num 2] (0, 0, ?st))))"
    by (metis prod.collapse)
  from fixAll_counts_every_instance [OF e] e show ?thesis
    by simp
qed

text \<open>
  C2. With a major version of 22 or more and a list of instances that is not empty,
  \<^verbatim>\<open>main\<close> runs the inventory command and then the \<^verbatim>\<open>iob object set\<close> command of every
  instance of the list, whichever of them throw. It exits with status 1 exactly when
  \<^verbatim>\<open>fixInstance\<close> throws for some instance (called after the inventory and the commands of
  the instances before it), and with status 0 exactly when it throws for none.
\<close>

theorem main_exit_reflects_failures:
  assumes "majorVersion version = Num v" and "22 \<le> v"
    and "fst (getEusecInstances sh start) = ins" and "ins \<noteq> []"
  shows "executed (snd (main version sh)) = listCommand # map fixCommand ins
     \<and> (fst (main version sh) = 1 \<longleftrightarrow>
          (\<exists>i<length ins. isl (fst (fixInstance sh (ins ! i)
               \<lparr>executed = listCommand # map fixCommand (take i ins), console = []\<rparr>))))
     \<and> (fst (main version sh) = 0 \<longleftrightarrow>
          (\<forall>i<length ins. \<not> isl (fst (fixInstance sh (ins ! i)
               \<lparr>executed = listCommand # map fixCommand (take i ins), console = []\<rparr>))))"
proof -
  from assms(1,2) have v: "\<not> lt (majorVersion version) (Num 22)"
    by simp
  show ?thesis
    using main_proceed [OF v, of sh] assms(3) by (simp add: isl_fixInstance)
qed

theorem main_exit_reflects_failures_witness:
  "majorVersion ''v22.11.0'' = Num 22 \<and> (22::int) \<le> 22
   \<and> fst (getEusecInstances firstFails start) = [Num 0, Num 2]
   \<and> isl (fst (fixInstance firstFails (Num 0) \<lparr>executed = [listCommand], console = []\<rparr>))
   \<and> executed (snd (main ''v22.11.0'' firstFails))
       = [listCommand, fixCommand (Num 0), fixCommand (Num 2)]
   \<and> fst (main ''v22.11.0'' firstFails) = 1"
proof -
  have f: "isl (fst (fixInstance firstFails (Num 0) \<lparr>executed = [listCommand], console = []\<rparr>))"
    by (simp add: isl_fixInstance firstFails_def)
  then have "\<exists>i<length [Num 0, Num 2]. isl (fst (fixInstance firstFails ([Num 0, Num 2] ! i)
      \<lparr>executed = listCommand # map fixCommand (take i [Num 0, Num 2]), console = []\<rparr>))"
    by (intro exI [of _ 0]) simp
  with main_exit_reflects_failures [OF v22 order_refl instances_firstFails]
  have "executed (snd (main ''v22.11.0'' firstFails)) = listCommand # map fixCommand [Num 0, Num 2]
      \<and> fst (main ''v22.11.0'' firstFails) = 1"
    by blast
  with f v22 instances_firstFails show ?thesis
    by simp
qed

text \<open>
  C5. With a major version of 22 or more and the instances \<open>[0, 2]\<close>, \<^verbatim>\<open>main\<close> runs, after
  the inventory, exactly two commands: the \<^verbatim>\<open>iob object set\<close> of instance 0, then that of
  instance 2. When neither call of \<^verbatim>\<open>fixInstance\<close> throws, it exits with status 0.
\<close>

theorem main_fixes_0_and_2:
  assumes "majorVersion version = Num v" and "22 \<le> v"
    and "fst (getEusecInstances sh start) = [Num 0, Num 2]"
  shows "executed (snd (main version sh)) =
           [listCommand,
            ''iob object set system.adapter.eusec.0 common.nodeProcessParams=[]'',
            ''iob object set system.adapter.eusec.2 common.nodeProcessParams=[]'']
     \<and> (\<not> isl (fst (fixInstance sh (Num 0) \<lparr>executed = [listCommand], console = []\<rparr>))
        \<and> \<not> isl (fst (fixInstance sh (Num 2)
               \<lparr>executed = [listCommand, fixCommand (Num 0)], console = []\<rparr>))
        \<longrightarrow> fst (main version sh) = 0)"
proof -
  from assms(1,2) have v: "\<not> lt (majorVersion version) (Num 22)"
    by simp
  have c0: "fixCommand (Num 0) = ''iob object set system.adapter.eusec.0 common.nodeProcessParams=[]''"
    by code_simp
  have c2: "fixCommand (Num 2) = ''iob object set system.adapter.eusec.2 common.nodeProcessParams=[]''"
    by code_simp
  have two: "\<And>P. (\<exists>i<Suc (Suc 0). P i) \<longleftrightarrow> P 0 \<or> P (Suc 0)"
    by (auto simp: less_Suc_eq)
  from main_proceed(1) [OF v, of sh] assms(3)
  have x: "executed (snd (main version sh)) = [listCommand, fixCommand (Num 0), fixCommand (Num 2)]"
    by simp
  from main_proceed(2) [OF v, of sh] assms(3)
  have y: "\<not> isl (fst (fixInstance sh (Num 0) \<lparr>executed = [listCommand], console = []\<rparr>))
        \<and> \<not> isl (fst (fixInstance sh (Num 2)
               \<lparr>executed = [listCommand, fixCommand (Num 0)], console = []\<rparr>))
        \<longrightarrow> fst (main version sh) = 0"
    by (simp add: isl_fixInstance two)
  from x y show ?thesis
    unfolding c0 c2 by simp
qed

theorem main_fixes_0_and_2_witness:
  "majorVersion ''v22.11.0'' = Num 22 \<and> (22::int) \<le> 22
   \<and> fst (getEusecInstances obliging start) = [Num 0, Num 2]
   \<and> executed (snd (main ''v22.11.0'' obliging)) =
           [listCommand,
            ''iob object set system.adapter.eusec.0 common.nodeProcessParams=[]'',
            ''iob object set system.adapter.eusec.2 common.nodeProcessParams=[]'']
   \<and> fst (main ''v22.11.0'' obliging) = 0"
proof -
  have a: "\<not> isl (fst (fixInstance obliging (Num 0) \<lparr>executed = [listCommand], console = []\<rparr>))"
    by (simp add: isl_fixInstance obliging_def)
  have b: "\<not> isl (fst (fixInstance obliging (Num 2)
               \<lparr>executed = [listCommand, fixCommand (Num 0)], console = []\<rparr>))"
    by (simp add: isl_fixInstance obliging_def)
  from main_fixes_0_and_2 [OF v22 order_refl instances_obliging] a b v22 instances_obliging
  show ?thesis
    by simp
qed

subsection \<open>The command of one instance\<close>

text \<open>
  C7. For every instance number \<open>i\<close> in the range where a double holds every integer,
  \<open>\<bar>i\<bar> < 2^53\<close>, and whatever the command does, \<^verbatim>\<open>fixInstance\<close> hands exactly one command
  to \<^verbatim>\<open>execSync\<close>: \<^verbatim>\<open>iob object set\<close>, the object id \<^verbatim>\<open>system.adapter.eusec.\<close> followed by \<open>i\<close> as
  a string, and the one assignment \<^verbatim>\<open>common.nodeProcessParams=[]\<close>. When \<open>i\<close> is not negative,
  as the numbers of the inventory are, that string is the decimal numeral of \<open>i\<close>, and
  the inventory pattern and \<^verbatim>\<open>parseInt\<close> read \<open>i\<close> back from the object id.
\<close>

theorem fixInstance_one_command:
  assumes "\<bar>i\<bar> < 2 ^ 53"
  shows "executed (snd (fixInstance sh (Num i) st)) =
           executed st @ [''iob object set system.adapter.eusec.'' @ toStr (Num i)
                            @ '' common.nodeProcessParams=[]'']
     \<and> (0 \<le> i \<longrightarrow>
          toStr (Num i) = decimal (nat i)
          \<and> lineMatch (''system.adapter.eusec.'' @ toStr (Num i)) = Some (toStr (Num i))
          \<and> parseInt10 (toStr (Num i)) = Num i)"
proof -
  have "executed (snd (fixInstance sh (Num i) st)) = executed st @ [fixCommand (Num i)]"
    by (rule executed_fixInstance)
  then have c: "executed (snd (fixInstance sh (Num i) st)) =
      executed st @ [''iob object set system.adapter.eusec.'' @ toStr (Num i)
                       @ '' common.nodeProcessParams=[]'']"
    by (simp add: fixCommand_def objectId_def)
  have "toStr (Num i) = decimal (nat i)
      \<and> lineMatch (''system.adapter.eusec.'' @ toStr (Num i)) = Some (toStr (Num i))
      \<and> parseInt10 (toStr (Num i)) = Num i" if "0 \<le> i"
  proof -
    from that have t: "toStr (Num i) = decimal (nat i)"
      by simp
    from that lineMatch_objectId [of "nat i"]
    have "lineMatch (''system.adapter.eusec.'' @ decimal (nat i)) = Some (decimal (nat i))"
      by (simp add: objectId_def)
    moreover from that have "parseInt10 (decimal (nat i)) = Num i"
      by (simp add: parseInt10_decimal)
    ultimately show ?thesis
      unfolding t by simp
  qed
  with c show ?thesis
    by blast
qed

theorem fixInstance_one_command_witness:
  "\<bar>2::int\<bar> < 2 ^ 53 \<and> (0::int) \<le> 2
   \<and> executed (snd (fixInstance obliging (Num 2) start)) =
       [''iob object set system.adapter.eusec.2 common.nodeProcessParams=[]'']
   \<and> lineMatch ''system.adapter.eusec.2'' = Some ''2''
   \<and> parseInt10 ''2'' = Num 2"
proof -
  have b: "\<bar>2::int\<bar> < 2 ^ 53"
    by simp
  have t: "toStr (Num 2) = ''2''"
    by code_simp
  from fixInstance_one_command [OF b, of obliging start]
  have "executed (snd (fixInstance obliging (Num 2) start)) =
        executed start @ [''iob object set system.adapter.eusec.'' @ toStr (Num 2)
                            @ '' common.nodeProcessParams=[]'']
      \<and> lineMatch (''system.adapter.eusec.'' @ toStr (Num 2)) = Some (toStr (Num 2))
      \<and> parseInt10 (toStr (Num 2)) = Num 2"
    by simp
  then show ?thesis
    unfolding t using b by (simp add: executed_start)
qed

subsection \<open>Reading the inventory\<close>

text \<open>
  C3. The list that \<^verbatim>\<open>getEusecInstances\<close> returns holds no number twice. When the inventory
  command answers with an output, the list is the one that the lines containing an
  identifier give by themselves: a line without a substring matching
  \<^verbatim>\<open>system.adapter.eusec.<digits>\<close> adds nothing, and the numbers of the list are exactly the
  numbers read in the lines that contain one.
\<close>

theorem getEusecInstances_deduplicates:
  "distinct (fst (getEusecInstances sh st))
   \<and> (sh (executed st) listCommand = Inr output \<longrightarrow>
        fst (getEusecInstances sh st)
          = collect [] (filter containsId (split CHR 0x0A (trim output)))
        \<and> set (fst (getEusecInstances sh st))
          = {parseInt10 ds |ds. \<exists>line\<in>set (split CHR 0x0A (trim output)).
                                  containsId line \<and> lineMatch line = Some ds})"
proof -
  have "distinct (fst (getEusecInstances sh st))"
    by (cases "sh (executed st) listCommand")
      (simp_all add: fst_getEusecInstances distinct_collect)
  moreover have "fst (getEusecInstances sh st)
      = collect [] (filter containsId (split CHR 0x0A (trim output)))"
    if "sh (executed st) listCommand = Inr output"
    using that collect_filter [of "[]" "split CHR 0x0A (trim output)"]
    by (simp add: fst_getEusecInstances)
  moreover have "set (fst (getEusecInstances sh st))
      = {parseInt10 ds |ds. \<exists>line\<in>set (split CHR 0x0A (trim output)).
                              containsId line \<and> lineMatch line = Some ds}"
    if "sh (executed st) listCommand = Inr output"
  proof -
    have "containsId line" if "lineMatch line = Some ds" for line ds
      using that lineMatch_None [of line] by simp
    then have "{parseInt10 ds |ds. \<exists>line\<in>set (split CHR 0x0A (trim output)).
                              containsId line \<and> lineMatch line = Some ds}
       = {parseInt10 ds |ds. \<exists>line\<in>set (split CHR 0x0A (trim output)). lineMatch line = Some ds}"
      by blast
    with that show ?thesis
      by (simp add: fst_getEusecInstances set_collect)
  qed
  ultimately show ?thesis
    by blast
qed

theorem getEusecInstances_deduplicates_witness:
  "repeating (executed start) listCommand =
     Inr (''system.adapter.eusec.0'' @ [CHR 0x0A] @ ''eusec'' @ [CHR 0x0A]
          @ ''system.adapter.eusec.2'' @ [CHR 0x0A] @ ''system.adapter.eusec.0'' @ [CHR 0x0A])
   \<and> fst (getEusecInstances repeating start) = [Num 0, Num 2]
   \<and> distinct (fst (getEusecInstances repeating start))
   \<and> set (fst (getEusecInstances repeating start))
      = {parseInt10 ds |ds.
           \<exists>line\<in>set [''system.adapter.eusec.0'', ''eusec'', ''system.adapter.eusec.2'',
                         ''system.adapter.eusec.0''].
             containsId line \<and> lineMatch line = Some ds}"
proof -
  let ?out = "''system.adapter.eusec.0'' @ [CHR 0x0A] @ ''eusec'' @ [CHR 0x0A]
          @ ''system.adapter.eusec.2'' @ [CHR 0x0A] @ ''system.adapter.eusec.0'' @ [CHR 0x0A]"
  have r: "repeating (executed start) listCommand = Inr ?out"
    by (simp add: repeating_def)
  have l: "split CHR 0x0A (trim ?out) = [''system.adapter.eusec.0'', ''eusec'',
      ''system.adapter.eusec.2'', ''system.adapter.eusec.0'']"
    by code_simp
  have v: "fst (getEusecInstances repeating start) = [Num 0, Num 2]"
    by (simp add: fst_getEusecInstances executed_start repeating_def) code_simp
  from getEusecInstances_deduplicates [of repeating start ?out] r
  have "distinct (fst (getEusecInstances repeating start))
      \<and> set (fst (getEusecInstances repeating start))
        = {parseInt10 ds |ds. \<exists>line\<in>set (split CHR 0x0A (trim ?out)).
                                  containsId line \<and> lineMatch line = Some ds}"
    by blast
  with r v show ?thesis
    unfolding l by blast
qed

text \<open>
  C8. The lines add at most one number each to the list. Where a line is some text \<open>pre\<close>, then
  an identifier with the digits \<open>ds\<close>, then a tail that does not go on with a digit, and no
  identifier begins inside \<open>pre\<close>, the match is \<open>ds\<close> and the line adds the number of
  \<open>ds\<close> and nothing else, whatever the tail holds: an identifier in the tail is dropped.
\<close>

theorem first_identifier_of_a_line:
  "length (collect instances lines) \<le> length instances + length lines
   \<and> (\<not> containsId (pre @ idPrefix) \<and> ds \<noteq> [] \<and> list_all isDigit ds
        \<and> takeWhile isDigit tail = [] \<longrightarrow>
      lineMatch (pre @ idPrefix @ ds @ tail) = Some ds
      \<and> collect instances [pre @ idPrefix @ ds @ tail]
          = (if parseInt10 ds \<in> set instances then instances
             else instances @ [parseInt10 ds]))"
proof -
  have "length (collect instances lines) \<le> length instances + length lines"
    by (rule length_collect)
  moreover have "lineMatch (pre @ idPrefix @ ds @ tail) = Some ds"
    if "\<not> containsId (pre @ idPrefix)" and "ds \<noteq> []" and "list_all isDigit ds"
      and "takeWhile isDigit tail = []"
    using that by (intro lineMatch_after matchHere_digits)
  ultimately show ?thesis
    by (simp add: collect_one)
qed

theorem first_identifier_of_a_line_witness:
  "\<not> containsId ([] @ idPrefix) \<and> ''0'' \<noteq> [] \<and> list_all isDigit ''0''
   \<and> takeWhile isDigit '' system.adapter.eusec.1'' = []
   \<and> lineMatch ''system.adapter.eusec.0 system.adapter.eusec.1'' = Some ''0''
   \<and> collect [] [''system.adapter.eusec.0 system.adapter.eusec.1''] = [Num 0]
   \<and> lineMatch ''system.adapter.eusec.1'' = Some ''1''"
proof -
  have "lineMatch idPrefix = None"
    by code_simp
  then have a: "\<not> containsId ([] @ idPrefix)"
    by (simp add: lineMatch_None)
  have b: "list_all isDigit ''0''" and c: "takeWhile isDigit '' system.adapter.eusec.1'' = []"
    by code_simp+
  have p: "parseInt10 ''0'' = Num 0"
    by code_simp
  have s: "lineMatch ''system.adapter.eusec.1'' = Some ''1''"
    by code_simp
  from first_identifier_of_a_line [of "[]" "[]" "[]" "''0''" "'' system.adapter.eusec.1''"] a b c
  have "lineMatch ([] @ idPrefix @ ''0'' @ '' system.adapter.eusec.1'') = Some ''0''
      \<and> collect [] [[] @ idPrefix @ ''0'' @ '' system.adapter.eusec.1''] = [parseInt10 ''0'']"
    by simp
  then have "lineMatch ''system.adapter.eusec.0 system.adapter.eusec.1'' = Some ''0''
      \<and> collect [] [''system.adapter.eusec.0 system.adapter.eusec.1''] = [Num 0]"
    by (simp add: idPrefix_def p)
  moreover have "''0'' \<noteq> []"
    by simp
  ultimately show ?thesis
    using a b c s by blast
qed

subsection \<open>A version that does not parse\<close>

text \<open>
  C9. When the first dot-separated piece of the version string, its first
  character dropped, does not begin with a decimal digit (leading white space and one sign
  skipped), \<^verbatim>\<open>getNodeVersion\<close> returns \<^verbatim>\<open>NaN\<close>; the test \<^verbatim>\<open>nodeVersion < 22\<close> is then false, and
  \<^verbatim>\<open>main\<close> goes on with the fix: it runs the inventory command and the command of every
  instance found.
\<close>

theorem version_gate_fails_open:
  assumes "\<not> startsWithNumber (drop 1 (hd (split CHR ''.'' version)))"
  shows "fst (getNodeVersion version st) = NaN
     \<and> \<not> lt (fst (getNodeVersion version st)) (Num 22)
     \<and> executed (snd (main version sh))
         = listCommand # map fixCommand (fst (getEusecInstances sh start))"
proof -
  from assms have n: "majorVersion version = NaN"
    by (simp add: majorVersion_def parseInt10_NaN)
  then have "\<not> lt (majorVersion version) (Num 22)"
    by simp
  from main_proceed(1) [OF this, of sh] n show ?thesis
    by (simp add: getNodeVersion_def)
qed

theorem version_gate_fails_open_witness:
  "\<not> startsWithNumber (drop 1 (hd (split CHR ''.'' ''vNext.1'')))
   \<and> fst (getNodeVersion ''vNext.1'' start) = NaN
   \<and> executed (snd (main ''vNext.1'' obliging))
       = [listCommand, fixCommand (Num 0), fixCommand (Num 2)]"
proof -
  have a: "\<not> startsWithNumber (drop 1 (hd (split CHR ''.'' ''vNext.1'')))"
    by code_simp
  from version_gate_fails_open [OF a, of start obliging] a show ?thesis
    by (simp add: instances_obliging)
qed

text \<open>
  C9 does not extend to every piece that is not numeric: in \<^verbatim>\<open>v18abc.0.0\<close> the
  piece \<^verbatim>\<open>18abc\<close> is not numeric, yet \<^verbatim>\<open>parseInt\<close> reads 18 in it, and \<^verbatim>\<open>main\<close> takes the early
  exit with status 0, having run no command, on a host that has two instances.
\<close>

theorem version_gate_counterexample:
  "\<not> isNumeric (drop 1 (hd (split CHR ''.'' ''v18abc.0.0'')))
   \<and> fst (getNodeVersion ''v18abc.0.0'' start) = Num 18
   \<and> fst (main ''v18abc.0.0'' obliging) = 0
   \<and> executed (snd (main ''v18abc.0.0'' obliging)) = []"
proof -
  have a: "\<not> isNumeric (drop 1 (hd (split CHR ''.'' ''v18abc.0.0'')))"
    by code_simp
  have b: "majorVersion ''v18abc.0.0'' = Num 18"
    by code_simp
  then have "lt (majorVersion ''v18abc.0.0'') (Num 22)"
    by simp
  from main_below [OF this, of obliging] a b show ?thesis
    by (simp add: getNodeVersion_def)
qed

end
